theory Spec2Isabelle
  imports Main
begin

section \<open>Data model of \<open>tree.py\<close>\<close>

text \<open>
  Python objects are referred to by address. A \<open>Node\<close> object is a record in a heap that
  maps every address to the object stored there; two variables alias exactly when they
  hold the same address. The payload of a node is a Python function object, of which the
  program only ever reads \<open>__name__\<close>.
\<close>

type_synonym addr = nat

datatype callable = Callable string

fun fn_name :: "callable \<Rightarrow> string" where
  "fn_name (Callable s) = s"

record node =
  name :: string
  func :: callable
  parent :: "addr option"
  children :: "addr list"
  node_id :: "int option"

type_synonym heap = "addr \<Rightarrow> node"

record ttree =
  tree_name :: string
  root :: addr
  id_iterator :: int
  nodes :: "addr list"

type_synonym state = "heap \<times> ttree"

text \<open>
  A call either returns or raises. A raised exception keeps the state reached at the
  moment of the raise, since the mutations done before it are not rolled back.
\<close>

datatype error =
    LoopError | IndexError | PathException | PicklingError | FileNotFoundError | EOFError

datatype 'a outcome = Returns 'a | Raises error 'a

fun final :: "'a outcome \<Rightarrow> 'a" where
  "final (Returns s) = s"
| "final (Raises e s) = s"

subsection \<open>The parent setter inherited from \<open>anytree.NodeMixin\<close>\<close>

text \<open>
  Modelled from the spec: the base class \<open>NodeMixin\<close> belongs to the library
  \<open>anytree\<close> and is not part of the repository. Its parent setter re-assigns the parent
  and registers the node at the end of the new parent's children; the node leaves the
  children of its former parent. Nothing happens when the new parent is the current one.
  The library refuses to build a cycle: it walks from the new parent upwards along the
  parent links and raises \<open>LoopError\<close> when it meets the node itself. The walk ends at a
  node without parent; on a cyclic chain of parents it would not end, hence the option.
  The assertions by which the library checks its own bookkeeping are left out.
\<close>

partial_function (option) on_path_reverse :: "heap \<Rightarrow> addr \<Rightarrow> addr \<Rightarrow> bool option" where
  "on_path_reverse h n p =
     (if p = n then Some True
      else case parent (h p) of
             None \<Rightarrow> Some False
           | Some q \<Rightarrow> on_path_reverse h n q)"

declare on_path_reverse.simps [code]

definition check_loop :: "heap \<Rightarrow> addr \<Rightarrow> addr option \<Rightarrow> bool option" where
  "check_loop h n v = (case v of None \<Rightarrow> Some False | Some p \<Rightarrow> on_path_reverse h n p)"

definition detach :: "addr \<Rightarrow> addr option \<Rightarrow> heap \<Rightarrow> heap" where
  "detach n cur h =
     (case cur of
        None \<Rightarrow> h
      | Some q \<Rightarrow>
          (let h1 = h(q := (h q)\<lparr>children := filter (\<lambda>c. c \<noteq> n) (children (h q))\<rparr>)
           in h1(n := (h1 n)\<lparr>parent := None\<rparr>)))"

definition attach :: "addr \<Rightarrow> addr option \<Rightarrow> heap \<Rightarrow> heap" where
  "attach n v h =
     (case v of
        None \<Rightarrow> h
      | Some p \<Rightarrow>
          (let h1 = h(p := (h p)\<lparr>children := children (h p) @ [n]\<rparr>)
           in h1(n := (h1 n)\<lparr>parent := Some p\<rparr>)))"

definition set_parent :: "addr \<Rightarrow> addr option \<Rightarrow> heap \<Rightarrow> heap outcome option" where
  "set_parent n v h =
     (if parent (h n) = v then Some (Returns h)
      else Option.bind (check_loop h n v) (\<lambda>loop.
             if loop then Some (Raises LoopError h)
             else Some (Returns (attach n v (detach n (parent (h n)) h)))))"

subsection \<open>\<open>TTree\<close>\<close>

definition new_ttree :: "string \<Rightarrow> addr \<Rightarrow> heap \<Rightarrow> state" where
  "new_ttree nm r h =
     (h(r := (h r)\<lparr>node_id := Some 0\<rparr>),
      \<lparr>tree_name = nm, root = r, id_iterator = 1, nodes = [r]\<rparr>)"

fun set_id :: "addr \<Rightarrow> state \<Rightarrow> state" where
  "set_id n (h, T) =
     (h(n := (h n)\<lparr>node_id := Some (id_iterator T)\<rparr>), T\<lparr>id_iterator := id_iterator T + 1\<rparr>)"

text \<open>
  \<open>add_node\<close>: \<open>None\<close> is the only falsy value a \<open>Node\<close> argument can take, so
  \<open>if target and new_node\<close> tests both arguments against \<open>None\<close>; \<open>target in self.__nodes\<close>
  compares by identity.
\<close>

fun add_node :: "addr option \<Rightarrow> addr option \<Rightarrow> state \<Rightarrow> state outcome option" where
  "add_node (Some t) (Some n) (h, T) =
     (if t \<in> set (nodes T) then
        Option.bind (set_parent n (Some t) h) (\<lambda>r.
          case r of
            Raises e h' \<Rightarrow> Some (Raises e (h', T))
          | Returns h' \<Rightarrow> Some (Returns (set_id n (h', T\<lparr>nodes := nodes T @ [n]\<rparr>))))
      else Some (Returns (h, T)))"
| "add_node target new_node s = Some (Returns s)"

definition add_nodes :: "addr option \<Rightarrow> addr list \<Rightarrow> state \<Rightarrow> state outcome option" where
  "add_nodes target ns s = Some (Returns s)"

definition add_nodes_byname :: "string \<Rightarrow> addr list \<Rightarrow> state \<Rightarrow> state outcome option" where
  "add_nodes_byname operator ns s = Some (Returns s)"

text \<open>
  \<open>__add_newpath_byref\<close>: \<open>path[0]\<close> raises \<open>IndexError\<close> on an empty list. The loop over
  \<open>range(1, len(path))\<close> hangs \<open>path[i]\<close> under \<open>path[i-1]\<close>; \<open>chain_from\<close> carries
  \<open>path[i-1]\<close> as \<open>prev\<close>.
\<close>

fun chain_from :: "addr \<Rightarrow> addr list \<Rightarrow> state \<Rightarrow> state outcome option" where
  "chain_from prev [] s = Some (Returns s)"
| "chain_from prev (x # xs) (h, T) =
     Option.bind (set_parent x (Some prev) h) (\<lambda>r.
       case r of
         Raises e h' \<Rightarrow> Some (Raises e (h', T))
       | Returns h' \<Rightarrow> chain_from x xs (set_id x (h', T)))"

fun add_newpath_byref :: "addr option \<Rightarrow> addr list \<Rightarrow> state \<Rightarrow> state outcome option" where
  "add_newpath_byref target [] s = Some (Raises IndexError s)"
| "add_newpath_byref target (p0 # rest) (h, T) =
     Option.bind (set_parent p0 target h) (\<lambda>r.
       case r of
         Raises e h' \<Rightarrow> Some (Raises e (h', T))
       | Returns h' \<Rightarrow> chain_from p0 rest (set_id p0 (h', T)))"

text \<open>
  \<open>path\<close> is a single node or a list of nodes. \<open>if node.id\<close> is Python truthiness: it
  holds when the identifier is an integer other than \<open>0\<close>, and fails for \<open>None\<close> and \<open>0\<close>.
\<close>

datatype path_arg = Single addr | Many "addr list"

fun as_list :: "path_arg \<Rightarrow> addr list" where
  "as_list (Single n) = [n]"
| "as_list (Many ns) = ns"

fun truthy :: "int option \<Rightarrow> bool" where
  "truthy None = False"
| "truthy (Some i) = (i \<noteq> 0)"

fun add_newpath :: "addr option \<Rightarrow> path_arg \<Rightarrow> state \<Rightarrow> state outcome option" where
  "add_newpath target path (h, T) =
     (if list_ex (\<lambda>x. truthy (node_id (h x))) (as_list path)
      then Some (Raises PathException (h, T))
      else add_newpath_byref target (as_list path) (h, T))"

text \<open>
  Modelled from the spec: \<open>PostOrderIter\<close> is part of \<open>anytree\<close> as well. It lists the
  nodes below and including its start node, the children of a node in order and before
  the node itself. On a cyclic children relation the traversal would not end.
\<close>

partial_function (option) post_order :: "heap \<Rightarrow> addr list \<Rightarrow> addr list option" where
  "post_order h ns =
     (case ns of
        [] \<Rightarrow> Some []
      | c # cs \<Rightarrow>
          Option.bind (post_order h (children (h c))) (\<lambda>below.
          Option.bind (post_order h cs) (\<lambda>others. Some (below @ c # others))))"

declare post_order.simps [code]

fun for_targets :: "addr list \<Rightarrow> addr list \<Rightarrow> state \<Rightarrow> state outcome option" where
  "for_targets [] p s = Some (Returns s)"
| "for_targets (t # ts) p s =
     Option.bind (add_newpath_byref (Some t) p s) (\<lambda>r.
       case r of
         Raises e s' \<Rightarrow> Some (Raises e s')
       | Returns s' \<Rightarrow> for_targets ts p s')"

fun add_newpath_byid :: "int \<Rightarrow> path_arg \<Rightarrow> state \<Rightarrow> state outcome option" where
  "add_newpath_byid target_id path (h, T) =
     (if list_ex (\<lambda>x. truthy (node_id (h x))) (as_list path)
      then Some (Raises PathException (h, T))
      else Option.bind (post_order h [root T]) (\<lambda>every.
             for_targets (filter (\<lambda>n. node_id (h n) = Some target_id) every)
               (as_list path) (h, T)))"

subsection \<open>\<open>save\<close> and \<open>load_tree\<close>\<close>













section \<open>Notions used to state the properties\<close>

text \<open>
  The heap is well linked when every node is listed among the children of its parent.
  The parent setter keeps it so.
\<close>

definition consistent :: "heap \<Rightarrow> bool" where
  "consistent h = (\<forall>x p. parent (h x) = Some p \<longrightarrow> x \<in> set (children (h p)))"

text \<open>
  The identifiers of the members (\<open>self.__nodes\<close>) are in order: the root is a member,
  every member carries an identifier in \<open>[0, id_iterator)\<close>, and no two members share one.
\<close>

fun ids_ok :: "state \<Rightarrow> bool" where
  "ids_ok (h, T) =
     (root T \<in> set (nodes T) \<and>
      (\<forall>n\<in>set (nodes T). \<exists>i. node_id (h n) = Some i \<and> 0 \<le> i \<and> i < id_iterator T) \<and>
      inj_on (\<lambda>n. node_id (h n)) (set (nodes T)))"

declare ids_ok.simps [simp del]





text \<open>
  \<open>below h r x\<close>: the node \<open>x\<close> is reached from \<open>r\<close> along children links.
\<close>

inductive below :: "heap \<Rightarrow> addr \<Rightarrow> addr \<Rightarrow> bool" for h r where
  start: "below h r r"
| child: "below h r p \<Longrightarrow> x \<in> set (children (h p)) \<Longrightarrow> below h r x"

text \<open>
  Two facts about the links that every insertion keeps: a child names its parent, and a
  node with a parent has an identifier.
\<close>

definition linked :: "heap \<Rightarrow> bool" where
  "linked h = (\<forall>p x. x \<in> set (children (h p)) \<longrightarrow> parent (h x) = Some p)"



text \<open>
  A caller's sequence of mutating calls on one tree. \<open>run\<close> goes on after a call that
  raised, from the state the raise left behind, as a caller that catches the exception
  does; a caller that stops at the first exception sees a prefix of such a run.
\<close>

datatype op =
    AddNode "addr option" "addr option"
  | AddNodes "addr option" "addr list"
  | AddNewpath "addr option" path_arg
  | AddNewpathById int path_arg


fun exec :: "op \<Rightarrow> state \<Rightarrow> state outcome option" where
  "exec (AddNode t n) s = add_node t n s"
| "exec (AddNodes t ns) s = add_nodes t ns s"
| "exec (AddNewpath t p) s = add_newpath t p s"
| "exec (AddNewpathById i p) s = add_newpath_byid i p s"

fun run :: "op list \<Rightarrow> state \<Rightarrow> state option" where
  "run [] s = Some s"
| "run (x # xs) s = Option.bind (exec x s) (\<lambda>r. run xs (final r))"



subsection \<open>The objects of the test file\<close>

text \<open>
  \<open>Node(f)\<close> with the default arguments: no parent, no children, no identifier. The
  tests build \<open>TTree("test", Node(root))\<close> and the nodes \<open>Node(op1)\<close>, \<open>Node(op2)\<close>,
  \<open>Node(op3)\<close>; here they live at the addresses 0 to 3, and every other address holds
  one more unattached node.
\<close>

definition new_node :: "callable \<Rightarrow> node" where
  "new_node f = \<lparr>name = fn_name f, func = f, parent = None, children = [], node_id = None\<rparr>"

definition test_heap :: heap where
  "test_heap =
     (\<lambda>a. new_node (Callable ''op''))
       (0 := new_node (Callable ''root''), 1 := new_node (Callable ''op1''),
        2 := new_node (Callable ''op2''), 3 := new_node (Callable ''op3''))"

definition test_tree :: state where
  "test_tree = new_ttree ''test'' 0 test_heap"

text \<open>
  The tree of the tests after \<open>add_node(root, Node(op1))\<close>, and after
  \<open>add_node(root, Node(op2))\<close> as well.
\<close>

definition one_child :: state where
  "one_child =
     (test_heap
        (0 := (new_node (Callable ''root''))\<lparr>children := [1], node_id := Some 0\<rparr>,
         1 := (new_node (Callable ''op1''))\<lparr>parent := Some 0, node_id := Some 1\<rparr>),
      \<lparr>tree_name = ''test'', root = 0, id_iterator = 2, nodes = [0, 1]\<rparr>)"

definition two_children :: state where
  "two_children =
     (test_heap
        (0 := (new_node (Callable ''root''))\<lparr>children := [1, 2], node_id := Some 0\<rparr>,
         1 := (new_node (Callable ''op1''))\<lparr>parent := Some 0, node_id := Some 1\<rparr>,
         2 := (new_node (Callable ''op2''))\<lparr>parent := Some 0, node_id := Some 2\<rparr>),
      \<lparr>tree_name = ''test'', root = 0, id_iterator = 3, nodes = [0, 1, 2]\<rparr>)"



text \<open>
  Two trees that share nodes: \<open>b = TTree("b", Node(op1))\<close> receives \<open>Node(op2)\<close> under
  its root, then the root of \<open>b\<close> is attached under the root of
  \<open>a = TTree("a", Node(root))\<close>. The outcome is that of the last call, with the tree \<open>a\<close>.
\<close>

definition grafted :: "state outcome option" where
  "grafted =
     Option.bind (add_node (Some 1) (Some 2) (new_ttree ''b'' 1 test_heap)) (\<lambda>r.
       add_node (Some 0) (Some 1) (new_ttree ''a'' 0 (fst (final r))))"

text \<open>
  What a test can observe of an outcome: the exception raised, if any; parent, children
  and identifier of the listed nodes; and the tree object.
\<close>

fun raised :: "'a outcome \<Rightarrow> error option" where
  "raised (Returns s) = None"
| "raised (Raises e s) = Some e"

definition view ::
  "addr list \<Rightarrow> state outcome option \<Rightarrow>
   (error option \<times> (addr \<times> addr option \<times> addr list \<times> int option) list \<times> ttree) option" where
  "view as r =
     map_option (\<lambda>oc.
       (raised oc,
        map (\<lambda>a. (a, parent (fst (final oc) a), children (fst (final oc) a),
                   node_id (fst (final oc) a))) as,
        snd (final oc))) r"


section \<open>Auxiliary facts\<close>

subsection \<open>The walk towards the root\<close>

lemma on_path_reverse_self: "on_path_reverse h n n = Some True"
  by (subst on_path_reverse.simps) simp

lemma on_path_reverse_False_neq: "on_path_reverse h n p = Some False \<Longrightarrow> p \<noteq> n"
  by (subst (asm) on_path_reverse.simps) (auto split: if_splits)

lemma on_path_reverse_False_up:
  "on_path_reverse h n p = Some False \<Longrightarrow> parent (h p) = Some q \<Longrightarrow> on_path_reverse h n q = Some False"
  by (subst (asm) on_path_reverse.simps) (auto split: if_splits)

lemma on_path_reverse_frame:
  assumes "on_path_reverse h n p = Some b"
    and "on_path_reverse h a p = Some False"
    and "\<And>x. x \<noteq> a \<Longrightarrow> parent (h' x) = parent (h x)"
  shows "on_path_reverse h' n p = Some b"
proof -
  let ?P = "\<lambda>h n p b. (\<forall>x. x \<noteq> a \<longrightarrow> parent (h' x) = parent (h x)) \<longrightarrow>
        on_path_reverse h a p = Some False \<longrightarrow> on_path_reverse h' n p = Some b"
  have "?P h n p b"
  proof (rule on_path_reverse.raw_induct[where P = ?P, OF _ assms(1)])
    fix f h n p b
    assume IH: "\<And>h n p b. f h n p = Some b \<Longrightarrow> ?P h n p b"
      and body: "(if p = n then Some True
                  else case parent (h p) of None \<Rightarrow> Some False | Some q \<Rightarrow> f h n q) = Some b"
    show "?P h n p b"
    proof (intro impI)
      assume fr: "\<forall>x. x \<noteq> a \<longrightarrow> parent (h' x) = parent (h x)"
        and na: "on_path_reverse h a p = Some False"
      have pa: "p \<noteq> a" using na by (rule on_path_reverse_False_neq)
      then have pp: "parent (h' p) = parent (h p)" using fr by simp
      show "on_path_reverse h' n p = Some b"
      proof (cases "p = n")
        case True
        with body show ?thesis by (simp add: on_path_reverse_self)
      next
        case False
        show ?thesis
        proof (cases "parent (h p)")
          case None
          with False body pp show ?thesis
            by (subst on_path_reverse.simps) simp
        next
          case (Some q)
          with False body have "f h n q = Some b" by simp
          moreover have "on_path_reverse h a q = Some False"
            using na Some by (rule on_path_reverse_False_up)
          ultimately have "on_path_reverse h' n q = Some b"
            using IH fr by blast
          with False Some pp show ?thesis
            by (subst on_path_reverse.simps) simp
        qed
      qed
    qed
  qed
  with assms show ?thesis by blast
qed


lemma node_id_detach [simp]: "node_id (detach n c h y) = node_id (h y)"
  by (simp add: detach_def Let_def split: option.splits)

lemma node_id_attach [simp]: "node_id (attach n v h y) = node_id (h y)"
  by (simp add: attach_def Let_def split: option.splits)

lemma parent_detach: "parent (detach n c h y) = (if y = n \<and> c \<noteq> None then None else parent (h y))"
  by (simp add: detach_def Let_def split: option.splits)

lemma parent_attach: "parent (attach n (Some p) h y) = (if y = n then Some p else parent (h y))"
  by (simp add: attach_def Let_def)

lemma children_attach:
  "children (attach n (Some p) h y) = (if y = p then children (h p) @ [n] else children (h y))"
  by (simp add: attach_def Let_def)

lemma children_detach:
  "children (detach n c h y) = (if c = Some y then filter (\<lambda>c. c \<noteq> n) (children (h y)) else children (h y))"
  by (auto simp add: detach_def Let_def split: option.splits)

lemma consistent_reparent:
  assumes "consistent h" "p \<noteq> n"
  shows "consistent (attach n (Some p) (detach n (parent (h n)) h))"
  using assms unfolding consistent_def
  by (auto simp add: parent_attach parent_detach children_attach children_detach)

lemma set_parent_Returns:
  assumes "on_path_reverse h n p = Some False"
  shows "\<exists>h'. set_parent n (Some p) h = Some (Returns h') \<and> parent (h' n) = Some p \<and>
          (\<forall>y. y \<noteq> n \<longrightarrow> parent (h' y) = parent (h y)) \<and>
          (\<forall>y. node_id (h' y) = node_id (h y)) \<and>
          (consistent h \<longrightarrow> consistent h')"
proof (cases "parent (h n) = Some p")
  case True
  then show ?thesis by (simp add: set_parent_def)
next
  case False
  have pn: "p \<noteq> n" using assms by (rule on_path_reverse_False_neq)
  let ?h' = "attach n (Some p) (detach n (parent (h n)) h)"
  have "set_parent n (Some p) h = Some (Returns ?h')"
    using False assms by (simp add: set_parent_def check_loop_def)
  moreover have "parent (?h' n) = Some p" by (simp add: parent_attach)
  moreover have "\<forall>y. y \<noteq> n \<longrightarrow> parent (?h' y) = parent (h y)"
    by (simp add: parent_attach parent_detach)
  moreover have "\<forall>y. node_id (?h' y) = node_id (h y)" by simp
  moreover have "consistent h \<longrightarrow> consistent ?h'"
    using pn by (simp add: consistent_reparent)
  ultimately show ?thesis by blast
qed

lemma consistent_node_id_update:
  "consistent (h(n := (h n)\<lparr>node_id := v\<rparr>)) = consistent h"
  by (auto simp add: consistent_def)

lemma chain_from_Returns:
  assumes "distinct xs" and "\<forall>x\<in>set xs. on_path_reverse h x p = Some False"
  shows "\<exists>h'. chain_from p xs (h, T) =
            Some (Returns (h', T\<lparr>id_iterator := id_iterator T + int (length xs)\<rparr>)) \<and>
          (\<forall>i<length xs. parent (h' (xs ! i)) = Some ((p # xs) ! i) \<and>
                          node_id (h' (xs ! i)) = Some (id_iterator T + int i)) \<and>
          (\<forall>y. y \<notin> set xs \<longrightarrow> parent (h' y) = parent (h y) \<and> node_id (h' y) = node_id (h y)) \<and>
          (consistent h \<longrightarrow> consistent h')"
  using assms
proof (induction xs arbitrary: h T p)
  case Nil
  show ?case by simp
next
  case (Cons x xs)
  have xp: "on_path_reverse h x p = Some False" using Cons.prems(2) by simp
  from set_parent_Returns[OF xp] obtain h1 where
    sp: "set_parent x (Some p) h = Some (Returns h1)" and
    px: "parent (h1 x) = Some p" and
    fr1: "\<forall>y. y \<noteq> x \<longrightarrow> parent (h1 y) = parent (h y)" and
    id1: "\<forall>y. node_id (h1 y) = node_id (h y)" and
    c1: "consistent h \<longrightarrow> consistent h1" by blast
  let ?h2 = "h1(x := (h1 x)\<lparr>node_id := Some (id_iterator T)\<rparr>)"
  let ?T2 = "T\<lparr>id_iterator := id_iterator T + 1\<rparr>"
  have step: "chain_from p (x # xs) (h, T) = chain_from x xs (?h2, ?T2)"
    using sp by simp
  have par2: "\<And>y. parent (?h2 y) = parent (h1 y)" by simp
  have noloop: "\<forall>y\<in>set xs. on_path_reverse ?h2 y x = Some False"
  proof
    fix y assume y: "y \<in> set xs"
    then have yx: "y \<noteq> x" using Cons.prems(1) by auto
    have yp: "on_path_reverse h y p = Some False" using Cons.prems(2) y by simp
    have "on_path_reverse ?h2 y p = Some False"
      by (rule on_path_reverse_frame[OF yp xp]) (simp add: fr1)
    then show "on_path_reverse ?h2 y x = Some False"
      using yx px by (subst on_path_reverse.simps) auto
  qed
  have dxs: "distinct xs" using Cons.prems(1) by simp
  from Cons.IH[OF dxs noloop, of ?T2] obtain h' where
    run: "chain_from x xs (?h2, ?T2) =
            Some (Returns (h', ?T2\<lparr>id_iterator := id_iterator ?T2 + int (length xs)\<rparr>))" and
    pos: "\<forall>i<length xs. parent (h' (xs ! i)) = Some ((x # xs) ! i) \<and>
                          node_id (h' (xs ! i)) = Some (id_iterator ?T2 + int i)" and
    fr: "\<forall>y. y \<notin> set xs \<longrightarrow> parent (h' y) = parent (?h2 y) \<and> node_id (h' y) = node_id (?h2 y)" and
    c: "consistent ?h2 \<longrightarrow> consistent h'" by blast
  have xn: "x \<notin> set xs" using Cons.prems(1) by simp
  have a: "chain_from p (x # xs) (h, T) =
            Some (Returns (h', T\<lparr>id_iterator := id_iterator T + int (length (x # xs))\<rparr>))"
    using step run by (simp add: algebra_simps)
  have b: "\<forall>i<length (x # xs). parent (h' ((x # xs) ! i)) = Some ((p # x # xs) ! i) \<and>
                          node_id (h' ((x # xs) ! i)) = Some (id_iterator T + int i)"
  proof (intro allI impI)
    fix i assume "i < length (x # xs)"
    then show "parent (h' ((x # xs) ! i)) = Some ((p # x # xs) ! i) \<and>
                          node_id (h' ((x # xs) ! i)) = Some (id_iterator T + int i)"
    proof (cases i)
      case 0
      then show ?thesis using fr xn px by simp
    next
      case (Suc j)
      with \<open>i < length (x # xs)\<close> have "j < length xs" by simp
      with pos Suc show ?thesis by (simp add: algebra_simps)
    qed
  qed
  have d: "\<forall>y. y \<notin> set (x # xs) \<longrightarrow> parent (h' y) = parent (h y) \<and> node_id (h' y) = node_id (h y)"
    using fr fr1 id1 by simp
  have e: "consistent h \<longrightarrow> consistent h'"
    using c c1 by (simp add: consistent_node_id_update)
  from a b d e show ?case by blast
qed


subsection \<open>Successful insertions\<close>

lemma add_newpath_byref_chain:
  "add_newpath_byref (Some t) (x # xs) s = chain_from t (x # xs) s"
  by (cases s) simp

lemma add_newpath_Returns:
  assumes "path \<noteq> []" and "distinct path"
    and "\<forall>x\<in>set path. \<not> truthy (node_id (h x))"
    and "\<forall>x\<in>set path. on_path_reverse h x t = Some False"
  shows "\<exists>h'. add_newpath (Some t) (Many path) (h, T) =
            Some (Returns (h', T\<lparr>id_iterator := id_iterator T + int (length path)\<rparr>)) \<and>
          (\<forall>i<length path. parent (h' (path ! i)) = Some ((t # path) ! i) \<and>
                          node_id (h' (path ! i)) = Some (id_iterator T + int i)) \<and>
          (\<forall>y. y \<notin> set path \<longrightarrow> parent (h' y) = parent (h y) \<and> node_id (h' y) = node_id (h y)) \<and>
          (consistent h \<longrightarrow> consistent h')"
proof -
  obtain x xs where path: "path = x # xs" using assms(1) by (cases path) auto
  have "add_newpath (Some t) (Many path) (h, T) = chain_from t path (h, T)"
    using assms(3) by (simp add: list_ex_iff path)
  with chain_from_Returns[OF assms(2,4), of T] show ?thesis by simp
qed

lemma add_node_Returns:
  assumes "t \<in> set (nodes T)" and "on_path_reverse h n t = Some False"
  shows "\<exists>h'. add_node (Some t) (Some n) (h, T) =
            Some (Returns (h', T\<lparr>nodes := nodes T @ [n], id_iterator := id_iterator T + 1\<rparr>)) \<and>
          parent (h' n) = Some t \<and> node_id (h' n) = Some (id_iterator T) \<and>
          (\<forall>y. y \<noteq> n \<longrightarrow> parent (h' y) = parent (h y) \<and> node_id (h' y) = node_id (h y)) \<and>
          (consistent h \<longrightarrow> consistent h')"
proof -
  from set_parent_Returns[OF assms(2)] obtain h1 where
    sp: "set_parent n (Some t) h = Some (Returns h1)" and
    px: "parent (h1 n) = Some t" and
    fr1: "\<forall>y. y \<noteq> n \<longrightarrow> parent (h1 y) = parent (h y)" and
    id1: "\<forall>y. node_id (h1 y) = node_id (h y)" and
    c1: "consistent h \<longrightarrow> consistent h1" by blast
  let ?h' = "h1(n := (h1 n)\<lparr>node_id := Some (id_iterator T)\<rparr>)"
  have "add_node (Some t) (Some n) (h, T) =
          Some (Returns (?h', T\<lparr>nodes := nodes T @ [n], id_iterator := id_iterator T + 1\<rparr>))"
    using assms(1) sp by simp
  moreover have "parent (?h' n) = Some t" using px by simp
  moreover have "node_id (?h' n) = Some (id_iterator T)" by simp
  moreover have "\<forall>y. y \<noteq> n \<longrightarrow> parent (?h' y) = parent (h y) \<and> node_id (?h' y) = node_id (h y)"
    using fr1 id1 by simp
  moreover have "consistent h \<longrightarrow> consistent ?h'"
    using c1 by (simp add: consistent_node_id_update)
  ultimately show ?thesis by blast
qed

lemma add_node_LoopError:
  assumes "t \<in> set (nodes T)" and "parent (h n) \<noteq> Some t" and "on_path_reverse h n t = Some True"
  shows "add_node (Some t) (Some n) (h, T) = Some (Raises LoopError (h, T))"
  using assms by (simp add: set_parent_def check_loop_def)

lemma add_node_not_member:
  "t \<notin> set (nodes T) \<Longrightarrow> add_node (Some t) (Some n) (h, T) = Some (Returns (h, T))"
  by simp

lemma add_node_None: "add_node None x s = Some (Returns s)" "add_node y None s = Some (Returns s)"
  by (cases y; simp)+


lemma ids_ok_cong:
  assumes "\<And>y. node_id (h' y) = node_id (h y)"
  shows "ids_ok (h', T) = ids_ok (h, T)"
  by (simp add: ids_ok.simps assms)

lemma set_parent_node_id:
  "set_parent n v h = Some r \<Longrightarrow> node_id (final r y) = node_id (h y)"
  by (auto simp add: set_parent_def split: if_splits bind_splits)

lemma ids_ok_counter_pos: "ids_ok (h, T) \<Longrightarrow> 0 < id_iterator T"
  by (fastforce simp add: ids_ok.simps)

lemma ids_ok_set_id:
  assumes "ids_ok (h, T)"
  shows "ids_ok (set_id n (h, T))"
proof -
  let ?k = "id_iterator T"
  let ?h = "h(n := (h n)\<lparr>node_id := Some ?k\<rparr>)"
  have pos: "0 < ?k" using assms by (rule ids_ok_counter_pos)
  have rng: "\<forall>m\<in>set (nodes T). \<exists>i. node_id (h m) = Some i \<and> 0 \<le> i \<and> i < ?k"
    using assms by (simp add: ids_ok.simps)
  have inj: "inj_on (\<lambda>m. node_id (h m)) (set (nodes T))" using assms by (simp add: ids_ok.simps)
  have "\<forall>m\<in>set (nodes T). \<exists>i. node_id (?h m) = Some i \<and> 0 \<le> i \<and> i < ?k + 1"
    using rng pos by fastforce
  moreover have "inj_on (\<lambda>m. node_id (?h m)) (set (nodes T))"
  proof (rule inj_onI)
    fix a b assume a: "a \<in> set (nodes T)" and b: "b \<in> set (nodes T)"
      and eq: "node_id (?h a) = node_id (?h b)"
    show "a = b"
    proof (cases "a = n \<or> b = n")
      case True
      then show ?thesis using eq rng a b by (fastforce split: if_splits)
    next
      case False
      then show ?thesis using eq inj a b by (auto dest: inj_onD)
    qed
  qed
  moreover have "root T \<in> set (nodes T)" using assms by (simp add: ids_ok.simps)
  ultimately show ?thesis by (simp add: ids_ok.simps)
qed

lemma ids_ok_append_set_id:
  assumes "ids_ok (h, T)"
  shows "ids_ok (set_id n (h, T\<lparr>nodes := nodes T @ [n]\<rparr>))"
proof -
  let ?k = "id_iterator T"
  let ?h = "h(n := (h n)\<lparr>node_id := Some ?k\<rparr>)"
  have pos: "0 < ?k" using assms by (rule ids_ok_counter_pos)
  have rng: "\<forall>m\<in>set (nodes T). \<exists>i. node_id (h m) = Some i \<and> 0 \<le> i \<and> i < ?k"
    using assms by (simp add: ids_ok.simps)
  have inj: "inj_on (\<lambda>m. node_id (h m)) (set (nodes T))" using assms by (simp add: ids_ok.simps)
  have "\<forall>m\<in>set (nodes T @ [n]). \<exists>i. node_id (?h m) = Some i \<and> 0 \<le> i \<and> i < ?k + 1"
    using rng pos by fastforce
  moreover have "inj_on (\<lambda>m. node_id (?h m)) (set (nodes T @ [n]))"
  proof (rule inj_onI)
    fix a b assume a: "a \<in> set (nodes T @ [n])" and b: "b \<in> set (nodes T @ [n])"
      and eq: "node_id (?h a) = node_id (?h b)"
    show "a = b"
    proof (cases "a = n \<or> b = n")
      case True
      then show ?thesis using eq rng a b by (fastforce split: if_splits)
    next
      case False
      then show ?thesis using eq inj a b by (auto dest: inj_onD)
    qed
  qed
  moreover have "root T \<in> set (nodes T @ [n])" using assms by (simp add: ids_ok.simps)
  ultimately show ?thesis by (simp add: ids_ok.simps)
qed

lemma chain_from_ids_ok:
  "chain_from p xs s = Some r \<Longrightarrow> ids_ok s \<Longrightarrow> ids_ok (final r)"
proof (induction xs arbitrary: p s r)
  case Nil
  then show ?case by auto
next
  case (Cons x xs)
  obtain h T where s: "s = (h, T)" by (cases s)
  from Cons.prems(1) s obtain r1 where sp: "set_parent x (Some p) h = Some r1"
    by (auto split: bind_splits)
  have ok1: "ids_ok (final r1, T)"
    using Cons.prems(2) s ids_ok_cong[of "final r1" h T] set_parent_node_id[OF sp] by simp
  show ?case
  proof (cases r1)
    case (Raises e h1)
    with Cons.prems(1) s sp ok1 show ?thesis by auto
  next
    case (Returns h1)
    with Cons.prems(1) s sp have "chain_from x xs (set_id x (h1, T)) = Some r" by simp
    moreover have "ids_ok (set_id x (h1, T))" using ok1 Returns by (simp only: final.simps ids_ok_set_id)
    ultimately show ?thesis by (rule Cons.IH)
  qed
qed

lemma add_newpath_byref_ids_ok:
  assumes "add_newpath_byref t xs s = Some r" and "ids_ok s"
  shows "ids_ok (final r)"
proof (cases xs)
  case Nil
  with assms show ?thesis by auto
next
  case (Cons x xs')
  obtain h T where s: "s = (h, T)" by (cases s)
  from assms(1) s Cons obtain r1 where sp: "set_parent x t h = Some r1"
    by (auto split: bind_splits)
  have ok1: "ids_ok (final r1, T)"
    using assms(2) s ids_ok_cong[of "final r1" h T] set_parent_node_id[OF sp] by simp
  show ?thesis
  proof (cases r1)
    case (Raises e h1)
    with assms(1) s sp ok1 Cons show ?thesis by auto
  next
    case (Returns h1)
    with assms(1) s sp Cons have "chain_from x xs' (set_id x (h1, T)) = Some r" by simp
    moreover have "ids_ok (set_id x (h1, T))" using ok1 Returns by (simp only: final.simps ids_ok_set_id)
    ultimately show ?thesis by (rule chain_from_ids_ok)
  qed
qed

lemma for_targets_ids_ok:
  "for_targets ts p s = Some r \<Longrightarrow> ids_ok s \<Longrightarrow> ids_ok (final r)"
proof (induction ts arbitrary: s r)
  case Nil
  then show ?case by auto
next
  case (Cons t ts)
  from Cons.prems(1) obtain r1 where r1: "add_newpath_byref (Some t) p s = Some r1"
    by (auto split: bind_splits)
  have ok1: "ids_ok (final r1)" using r1 Cons.prems(2) by (rule add_newpath_byref_ids_ok)
  show ?case
  proof (cases r1)
    case (Raises e s1)
    with Cons.prems(1) r1 ok1 show ?thesis by auto
  next
    case (Returns s1)
    with Cons.prems(1) r1 have "for_targets ts p s1 = Some r" by simp
    moreover have "ids_ok s1" using ok1 Returns by simp
    ultimately show ?thesis by (rule Cons.IH)
  qed
qed

lemma add_newpath_ids_ok:
  assumes "add_newpath t p s = Some r" and "ids_ok s"
  shows "ids_ok (final r)"
proof -
  obtain h T where s: "s = (h, T)" by (cases s)
  show ?thesis
  proof (cases "list_ex (\<lambda>x. truthy (node_id (h x))) (as_list p)")
    case True
    with assms s show ?thesis by auto
  next
    case False
    with assms(1) s have "add_newpath_byref t (as_list p) s = Some r" by simp
    then show ?thesis using assms(2) by (rule add_newpath_byref_ids_ok)
  qed
qed

lemma add_newpath_byid_ids_ok:
  assumes "add_newpath_byid i p s = Some r" and "ids_ok s"
  shows "ids_ok (final r)"
proof -
  obtain h T where s: "s = (h, T)" by (cases s)
  show ?thesis
  proof (cases "list_ex (\<lambda>x. truthy (node_id (h x))) (as_list p)")
    case True
    with assms s show ?thesis by auto
  next
    case False
    with assms(1) s obtain ts where "for_targets ts (as_list p) s = Some r"
      by (auto split: bind_splits)
    then show ?thesis using assms(2) by (rule for_targets_ids_ok)
  qed
qed

lemma add_node_ids_ok:
  assumes "add_node t n s = Some r" and "ids_ok s"
  shows "ids_ok (final r)"
proof -
  obtain h T where s: "s = (h, T)" by (cases s)
  show ?thesis
  proof (cases "\<exists>t' n'. t = Some t' \<and> n = Some n' \<and> t' \<in> set (nodes T)")
    case False
    then have "add_node t n s = Some (Returns s)"
      using s by (cases t; cases n) auto
    with assms show ?thesis by auto
  next
    case True
    then obtain t' n' where tn: "t = Some t'" "n = Some n'" "t' \<in> set (nodes T)" by blast
    from assms(1) s tn obtain r1 where sp: "set_parent n' (Some t') h = Some r1"
      by (auto split: bind_splits)
    have ok1: "ids_ok (final r1, T)"
      using assms(2) s ids_ok_cong[of "final r1" h T] set_parent_node_id[OF sp] by simp
    show ?thesis
    proof (cases r1)
      case (Raises e h1)
      with assms(1) s sp ok1 tn show ?thesis by auto
    next
      case (Returns h1)
      with assms(1) s sp tn
      have "r = Returns (set_id n' (h1, T\<lparr>nodes := nodes T @ [n']\<rparr>))" by simp
      moreover have "ids_ok (set_id n' (h1, T\<lparr>nodes := nodes T @ [n']\<rparr>))"
        using ok1 Returns by (simp only: final.simps ids_ok_append_set_id)
      ultimately show ?thesis by (simp only: final.simps)
    qed
  qed
qed

lemma exec_ids_ok: "exec x s = Some r \<Longrightarrow> ids_ok s \<Longrightarrow> ids_ok (final r)"
  by (cases x)
     (auto simp add: add_nodes_def
           dest: add_node_ids_ok add_newpath_ids_ok add_newpath_byid_ids_ok)

lemma run_ids_ok: "run ops s = Some s' \<Longrightarrow> ids_ok s \<Longrightarrow> ids_ok s'"
proof (induction ops arbitrary: s)
  case Nil
  then show ?case by simp
next
  case (Cons x ops)
  from Cons.prems(1) obtain r where r: "exec x s = Some r" and rest: "run ops (final r) = Some s'"
    by (auto split: bind_splits)
  from r Cons.prems(2) have "ids_ok (final r)" by (rule exec_ids_ok)
  with rest show ?case by (rule Cons.IH)
qed

lemma ids_ok_new_ttree: "ids_ok (new_ttree nm r h)"
  by (simp add: new_ttree_def ids_ok.simps)

subsection \<open>The counter and the identifiers of the other nodes\<close>


lemma add_node_other_ids:
  assumes "add_node t n (h, T) = Some r" and "n \<noteq> Some m"
  shows "node_id (fst (final r) m) = node_id (h m)"
proof (cases "\<exists>t' n'. t = Some t' \<and> n = Some n' \<and> t' \<in> set (nodes T)")
  case False
  then have "add_node t n (h, T) = Some (Returns (h, T))"
    by (cases t; cases n) auto
  with assms show ?thesis by auto
next
  case True
  then obtain t' n' where tn: "t = Some t'" "n = Some n'" "t' \<in> set (nodes T)" by blast
  from assms(1) tn obtain r1 where sp: "set_parent n' (Some t') h = Some r1"
    by (auto split: bind_splits)
  have "node_id (final r1 m) = node_id (h m)" using sp by (rule set_parent_node_id)
  then show ?thesis using assms sp tn by (cases r1) auto
qed


subsection \<open>Calls as sequences of insertions\<close>
















lemma attach_None [simp]: "attach n None h = h"
  by (simp add: attach_def)




lemma linked_node_id_update: "linked (h(n := (h n)\<lparr>node_id := v\<rparr>)) = linked h"
  by (auto simp add: linked_def)







subsection \<open>Saving and loading\<close>









subsection \<open>The precondition of the path operations\<close>

lemma add_newpath_rejects_nonzero_identifier:
  assumes "x \<in> set (as_list p)" and "node_id (h x) = Some i" and "i \<noteq> 0"
  shows "add_newpath t p (h, T) = Some (Raises PathException (h, T))"
proof -
  have "truthy (node_id (h x))" using assms(2,3) by simp
  then have "list_ex (\<lambda>x. truthy (node_id (h x))) (as_list p)"
    using assms(1) unfolding list_ex_iff by (rule_tac x = x in bexI)
  then show ?thesis by simp
qed

lemma add_newpath_byid_rejects_nonzero_identifier:
  assumes "x \<in> set (as_list p)" and "node_id (h x) = Some i" and "i \<noteq> 0"
  shows "add_newpath_byid k p (h, T) = Some (Raises PathException (h, T))"
proof -
  have "truthy (node_id (h x))" using assms(2,3) by simp
  then have "list_ex (\<lambda>x. truthy (node_id (h x))) (as_list p)"
    using assms(1) unfolding list_ex_iff by (rule_tac x = x in bexI)
  then show ?thesis by simp
qed

section \<open>Evaluation on the test objects\<close>

lemmas evals = view_def test_tree_def test_heap_def new_node_def new_ttree_def set_parent_def
  check_loop_def attach_def detach_def Let_def on_path_reverse.simps post_order.simps add_nodes_def

lemma add_node_one_child: "add_node (Some 0) (Some 1) test_tree = Some (Returns one_child)"
  by (simp add: evals one_child_def fun_eq_iff)

lemma add_node_two_children: "add_node (Some 0) (Some 2) one_child = Some (Returns two_children)"
  by (simp add: evals one_child_def two_children_def fun_eq_iff)

lemma run_two_children:
  "run [AddNode (Some 0) (Some 1), AddNode (Some 0) (Some 2)] test_tree = Some two_children"
  using add_node_one_child add_node_two_children by simp

lemma ids_ok_two_children: "ids_ok two_children"
  using run_ids_ok[OF run_two_children] ids_ok_new_ttree by (simp add: test_tree_def)

lemma consistent_two_children: "consistent (fst two_children)"
  by (simp add: consistent_def two_children_def test_heap_def new_node_def)









section \<open>The claims\<close>

subsection \<open>C1: \<open>add_newpath_byid\<close> with several matches\<close>

text \<open>
  C1 asks that, when the search of \<open>add_newpath_byid\<close> finds more than one node, every
  match after the first receives a copy of the path, as the comment inside the loop
  announces. The code passes the same nodes to every match. In the tree \<open>a\<close> of
  \<open>grafted\<close> the identifier 1 is carried by two nodes below the root, \<open>Node(op1)\<close> at
  address 1 and \<open>Node(op2)\<close> at address 2, which the traversal meets in the order 2, 1.
  After \<open>add_newpath_byid(1, Node(op3))\<close> the one node at address 3 is a child of node 1
  only: node 2 has lost it again, and it was numbered twice, so that it carries 3 and
  the counter stands at 4.
\<close>

theorem add_newpath_byid_moves_the_path:
  "view [0, 1, 2, 3] grafted =
     Some (None,
           [(0, None, [1], Some 0), (1, Some 0, [2], Some 1), (2, Some 1, [], Some 1),
            (3, None, [], None)],
           \<lparr>tree_name = ''a'', root = 0, id_iterator = 2, nodes = [0, 1]\<rparr>) \<and>
   view [0, 1, 2, 3] (Option.bind grafted (\<lambda>r. add_newpath_byid 1 (Single 3) (final r))) =
     Some (None,
           [(0, None, [1], Some 0), (1, Some 0, [2, 3], Some 1), (2, Some 1, [], Some 1),
            (3, Some 1, [], Some 3)],
           \<lparr>tree_name = ''a'', root = 0, id_iterator = 4, nodes = [0, 1]\<rparr>)"
  by (simp add: evals grafted_def)

subsection \<open>C2: the members and the nodes below the root\<close>

text \<open>
  C2 asks that the members are exactly the nodes reachable from the root, as the
  comment on \<open>self.__nodes\<close> says (a list of every node in the tree). \<open>add_node\<close>
  appends to the list; \<open>__add_newpath_byref\<close> does not. After
  \<open>add_newpath(root, Node(op1))\<close> on the tree of the tests, \<open>Node(op1)\<close> is a child of
  the root and the members are still the root alone; a following
  \<open>add_node(Node(op1), Node(op2))\<close> therefore finds its target missing and does nothing.
\<close>

theorem add_newpath_leaves_members_unchanged:
  "view [0, 1, 2] (add_newpath (Some 0) (Single 1) test_tree) =
     Some (None, [(0, None, [1], Some 0), (1, Some 0, [], Some 1), (2, None, [], None)],
           \<lparr>tree_name = ''test'', root = 0, id_iterator = 2, nodes = [0]\<rparr>) \<and>
   view [0, 1, 2]
     (Option.bind (add_newpath (Some 0) (Single 1) test_tree) (\<lambda>r.
        add_node (Some 1) (Some 2) (final r))) =
     Some (None, [(0, None, [1], Some 0), (1, Some 0, [], Some 1), (2, None, [], None)],
           \<lparr>tree_name = ''test'', root = 0, id_iterator = 2, nodes = [0]\<rparr>)"
  by (simp add: evals)

subsection \<open>C3: the precondition of \<open>add_newpath\<close>\<close>

text \<open>
  C3 asks that \<open>add_newpath\<close> raises, and changes nothing, as soon as one node of the
  path already has an identifier. The test \<open>if node.id\<close> lets the identifier 0 pass,
  which is the one the root of a tree carries. On the tree of the tests,
  \<open>add_newpath(d, root)\<close> with an unattached node \<open>d\<close> (address 4) raises nothing: the
  root becomes a child of \<open>d\<close>, its identifier changes from 0 to 1 and the counter
  advances to 2.
\<close>

theorem add_newpath_accepts_identifier_zero:
  "view [0, 4] (Some (Returns test_tree)) =
     Some (None, [(0, None, [], Some 0), (4, None, [], None)],
           \<lparr>tree_name = ''test'', root = 0, id_iterator = 1, nodes = [0]\<rparr>) \<and>
   view [0, 4] (add_newpath (Some 4) (Single 0) test_tree) =
     Some (None, [(0, Some 4, [], Some 1), (4, None, [0], None)],
           \<lparr>tree_name = ''test'', root = 0, id_iterator = 2, nodes = [0]\<rparr>)"
  by (simp add: evals)

subsection \<open>C4: \<open>add_nodes\<close>\<close>

text \<open>
  C4 asks that \<open>add_nodes(target, [a, b, c])\<close> ends in the state that the three calls
  \<open>add_node(target, a)\<close>, \<open>add_node(target, b)\<close>, \<open>add_node(target, c)\<close> reach; the test
  \<open>test_add_nodes\<close> expects three children under the root. The body of \<open>add_nodes\<close> is
  \<open>pass\<close>: on the objects of that test it leaves the root without children, where the
  three single calls give it the children 1, 2, 3 with the identifiers 1, 2, 3.
\<close>

theorem add_nodes_does_nothing:
  "view [0, 1, 2, 3] (add_nodes (Some 0) [1, 2, 3] test_tree) =
     Some (None,
           [(0, None, [], Some 0), (1, None, [], None), (2, None, [], None), (3, None, [], None)],
           \<lparr>tree_name = ''test'', root = 0, id_iterator = 1, nodes = [0]\<rparr>) \<and>
   view [0, 1, 2, 3]
     (map_option Returns
        (run [AddNode (Some 0) (Some 1), AddNode (Some 0) (Some 2), AddNode (Some 0) (Some 3)]
           test_tree)) =
     Some (None,
           [(0, None, [1, 2, 3], Some 0), (1, Some 0, [], Some 1), (2, Some 0, [], Some 2),
            (3, Some 0, [], Some 3)],
           \<lparr>tree_name = ''test'', root = 0, id_iterator = 4, nodes = [0, 1, 2, 3]\<rparr>)"
  by (simp add: evals)

subsection \<open>C5: loading a saved tree\<close>




subsection \<open>C6: \<open>add_newpath\<close> chains the path\<close>




subsection \<open>C7: \<open>add_node\<close> attaches under a member and ignores other targets\<close>

text \<open>
  C7, as amended. Let \<open>target\<close> be a member of the tree and \<open>new_node\<close> a node that is
  neither \<open>target\<close> nor an ancestor of it. Then \<open>add_node(target, new_node)\<close> returns,
  the parent of \<open>new_node\<close> is \<open>target\<close>, \<open>new_node\<close> is appended to the members, it
  carries the former value of the counter as identifier and the counter has advanced
  by one; in a well linked heap \<open>new_node\<close> is among the children of \<open>target\<close>. When
  \<open>new_node\<close> is \<open>target\<close> or one of its ancestors (and not already a child of
  \<open>target\<close>), the parent setter raises \<open>LoopError\<close> and nothing has changed. When
  \<open>target\<close> is not a member, or either argument is \<open>None\<close>, the call returns and
  nothing has changed.
\<close>

theorem add_node_attaches_or_ignores:
  "(t \<in> set (nodes T) \<and> on_path_reverse h n t = Some False \<longrightarrow>
      (\<exists>h'. add_node (Some t) (Some n) (h, T) =
               Some (Returns (h', T\<lparr>nodes := nodes T @ [n], id_iterator := id_iterator T + 1\<rparr>)) \<and>
            parent (h' n) = Some t \<and> node_id (h' n) = Some (id_iterator T) \<and>
            (consistent h \<longrightarrow> n \<in> set (children (h' t))))) \<and>
   (t \<in> set (nodes T) \<and> parent (h n) \<noteq> Some t \<and> on_path_reverse h n t = Some True \<longrightarrow>
      add_node (Some t) (Some n) (h, T) = Some (Raises LoopError (h, T))) \<and>
   (t \<notin> set (nodes T) \<longrightarrow> add_node (Some t) (Some n) (h, T) = Some (Returns (h, T))) \<and>
   add_node None x (h, T) = Some (Returns (h, T)) \<and>
   add_node y None (h, T) = Some (Returns (h, T))"
proof (intro conjI impI)
  assume a: "t \<in> set (nodes T) \<and> on_path_reverse h n t = Some False"
  then obtain h' where
    r: "add_node (Some t) (Some n) (h, T) =
          Some (Returns (h', T\<lparr>nodes := nodes T @ [n], id_iterator := id_iterator T + 1\<rparr>))" and
    p: "parent (h' n) = Some t" and i: "node_id (h' n) = Some (id_iterator T)" and
    c: "consistent h \<longrightarrow> consistent h'"
    using add_node_Returns[of t T h n] by blast
  have "consistent h \<longrightarrow> n \<in> set (children (h' t))"
    using c p by (auto simp add: consistent_def)
  with r p i show "\<exists>h'. add_node (Some t) (Some n) (h, T) =
               Some (Returns (h', T\<lparr>nodes := nodes T @ [n], id_iterator := id_iterator T + 1\<rparr>)) \<and>
            parent (h' n) = Some t \<and> node_id (h' n) = Some (id_iterator T) \<and>
            (consistent h \<longrightarrow> n \<in> set (children (h' t)))" by blast
next
  assume "t \<in> set (nodes T) \<and> parent (h n) \<noteq> Some t \<and> on_path_reverse h n t = Some True"
  then show "add_node (Some t) (Some n) (h, T) = Some (Raises LoopError (h, T))"
    using add_node_LoopError[of t T h n] by blast
next
  assume "t \<notin> set (nodes T)"
  then show "add_node (Some t) (Some n) (h, T) = Some (Returns (h, T))" by simp
next
  show "add_node None x (h, T) = Some (Returns (h, T))" by simp
next
  show "add_node y None (h, T) = Some (Returns (h, T))" by (cases y) simp_all
qed

text \<open>
  The three cases at the tree of the tests: \<open>Node(op1)\<close> goes under the root; the root
  cannot go under itself; \<open>Node(op1)\<close>, not a member, is no target.
\<close>

theorem add_node_attaches_or_ignores_witness:
  "0 \<in> set (nodes (snd test_tree)) \<and> on_path_reverse (fst test_tree) 1 0 = Some False \<and>
   consistent (fst test_tree) \<and>
   (\<exists>h'. add_node (Some 0) (Some 1) test_tree =
            Some (Returns (h', (snd test_tree)\<lparr>nodes := [0, 1], id_iterator := 2\<rparr>)) \<and>
          parent (h' 1) = Some 0 \<and> node_id (h' 1) = Some 1 \<and> 1 \<in> set (children (h' 0))) \<and>
   parent (fst test_tree 0) \<noteq> Some 0 \<and> on_path_reverse (fst test_tree) 0 0 = Some True \<and>
   add_node (Some 0) (Some 0) test_tree = Some (Raises LoopError test_tree) \<and>
   1 \<notin> set (nodes (snd test_tree)) \<and>
   add_node (Some 1) (Some 2) test_tree = Some (Returns test_tree)"
proof -
  have m: "0 \<in> set (nodes (snd test_tree))" "1 \<notin> set (nodes (snd test_tree))"
    "nodes (snd test_tree) = [0]" "id_iterator (snd test_tree) = 1"
    by (simp_all add: test_tree_def new_ttree_def)
  have nl: "on_path_reverse (fst test_tree) 1 0 = Some False"
    "on_path_reverse (fst test_tree) 0 0 = Some True" "parent (fst test_tree 0) \<noteq> Some 0"
    by (simp_all add: evals)
  have c: "consistent (fst test_tree)" by (simp add: consistent_def evals)
  note inst = add_node_attaches_or_ignores[where h = "fst test_tree" and T = "snd test_tree"]
  have "\<exists>h'. add_node (Some 0) (Some 1) test_tree =
            Some (Returns (h', (snd test_tree)\<lparr>nodes := [0, 1], id_iterator := 2\<rparr>)) \<and>
          parent (h' 1) = Some 0 \<and> node_id (h' 1) = Some 1 \<and> 1 \<in> set (children (h' 0))"
    using inst[where t = 0 and n = 1] m nl c by simp
  moreover have "add_node (Some 0) (Some 0) test_tree = Some (Raises LoopError test_tree)"
    using inst[where t = 0 and n = 0] m nl by simp
  moreover have "add_node (Some 1) (Some 2) test_tree = Some (Returns test_tree)"
    using inst[where t = 1 and n = 2] m by simp
  ultimately show ?thesis using m nl c by simp
qed

text \<open>
  C7 as first stated fails: with \<open>Node(op1)\<close> attached under the root, the call
  \<open>add_node(Node(op1), root)\<close> has a member as target and a node as second argument,
  and raises \<open>LoopError\<close>; the root keeps its place, and neither the members nor the
  counter change.
\<close>

theorem add_node_under_descendant_raises:
  "view [0, 1]
     (Option.bind (add_node (Some 0) (Some 1) test_tree) (\<lambda>r. add_node (Some 1) (Some 0) (final r))) =
   Some (Some LoopError, [(0, None, [1], Some 0), (1, Some 0, [], Some 1)],
         \<lparr>tree_name = ''test'', root = 0, id_iterator = 2, nodes = [0, 1]\<rparr>)"
  by (simp add: evals)

subsection \<open>C8: the identifiers of the nodes of a tree\<close>




subsection \<open>C9: \<open>add_newpath\<close> does not ask whether the target is a member\<close>

text \<open>
  C9, as amended. Let \<open>path\<close> be a non-empty list of different nodes without identifier,
  none of them \<open>target\<close> or an ancestor of \<open>target\<close>. Then, whether \<open>target\<close> is a
  member of the tree or not, \<open>add_newpath(target, path)\<close> returns, the first node of the
  path has \<open>target\<close> as parent and every later one its predecessor, the nodes carry the
  values the counter of this tree ran through, in order, and the list of members is as
  before.
\<close>

theorem add_newpath_any_target:
  assumes "path \<noteq> []" and "distinct path"
    and "\<forall>x\<in>set path. node_id (h x) = None"
    and "\<forall>x\<in>set path. on_path_reverse h x t = Some False"
  shows "\<exists>h'. add_newpath (Some t) (Many path) (h, T) =
            Some (Returns (h', T\<lparr>id_iterator := id_iterator T + int (length path)\<rparr>)) \<and>
          (\<forall>i<length path. parent (h' (path ! i)) = Some ((t # path) ! i) \<and>
                            node_id (h' (path ! i)) = Some (id_iterator T + int i))"
proof -
  have "\<forall>x\<in>set path. \<not> truthy (node_id (h x))" using assms(3) by simp
  from add_newpath_Returns[OF assms(1,2) this assms(4), of T] show ?thesis by blast
qed

text \<open>
  The target at address 4 is unattached and no member of the tree of the tests.
\<close>

theorem add_newpath_any_target_witness:
  "[1, 2] \<noteq> ([]::nat list) \<and> distinct [1, 2::nat] \<and>
   list_all (\<lambda>x. node_id (fst test_tree x) = None) [1, 2] \<and>
   list_all (\<lambda>x. on_path_reverse (fst test_tree) x 4 = Some False) [1, 2] \<and>
   4 \<notin> set (nodes (snd test_tree)) \<and> parent (fst test_tree 4) = None \<and>
   (\<exists>h'. add_newpath (Some 4) (Many [1, 2]) test_tree =
            Some (Returns (h', (snd test_tree)\<lparr>id_iterator := 3\<rparr>)) \<and>
          parent (h' 1) = Some 4 \<and> node_id (h' 1) = Some 1 \<and>
          parent (h' 2) = Some 1 \<and> node_id (h' 2) = Some 2)"
proof -
  have ne: "[1, 2] \<noteq> ([]::nat list)" and d: "distinct [1, 2::nat]" by simp_all
  have f: "\<forall>x\<in>set [1, 2]. node_id (fst test_tree x) = None" by (simp add: evals)
  have nl: "\<forall>x\<in>set [1, 2]. on_path_reverse (fst test_tree) x 4 = Some False"
    by (simp add: evals)
  have o: "4 \<notin> set (nodes (snd test_tree))" "parent (fst test_tree 4) = None"
    "id_iterator (snd test_tree) = 1"
    by (simp_all add: evals)
  from add_newpath_any_target[OF ne d f nl, of "snd test_tree"] obtain h' where
    r: "add_newpath (Some 4) (Many [1, 2]) (fst test_tree, snd test_tree) =
          Some (Returns (h', (snd test_tree)\<lparr>id_iterator := id_iterator (snd test_tree) + int (length [1, 2::nat])\<rparr>))" and
    pos: "\<forall>i<length [1, 2::nat]. parent (h' ([1, 2] ! i)) = Some ((4 # [1, 2]) ! i) \<and>
            node_id (h' ([1, 2] ! i)) = Some (id_iterator (snd test_tree) + int i)" by blast
  from pos[rule_format, of 0] pos[rule_format, of 1] o
  have "parent (h' 1) = Some 4" "node_id (h' 1) = Some 1" "parent (h' 2) = Some 1" "node_id (h' 2) = Some 2"
    by simp_all
  with r o f nl show ?thesis by (auto simp add: list_all_iff)
qed

text \<open>
  C9 as first stated fails for the empty path, where \<open>path[0]\<close> raises \<open>IndexError\<close>, and
  for a path that holds the target, where the parent setter raises \<open>LoopError\<close>.
\<close>

theorem add_newpath_empty_or_target_in_path_raises:
  "view [4] (add_newpath (Some 4) (Many []) test_tree) =
     Some (Some IndexError, [(4, None, [], None)],
           \<lparr>tree_name = ''test'', root = 0, id_iterator = 1, nodes = [0]\<rparr>) \<and>
   view [4] (add_newpath (Some 4) (Single 4) test_tree) =
     Some (Some LoopError, [(4, None, [], None)],
           \<lparr>tree_name = ''test'', root = 0, id_iterator = 1, nodes = [0]\<rparr>)"
  by (simp add: evals)

subsection \<open>C10: \<open>add_node\<close> with a node that is a member already\<close>

text \<open>
  C10, as amended. Let \<open>target\<close> and \<open>n\<close> be members of the tree, \<open>n\<close> neither
  \<open>target\<close> nor an ancestor of \<open>target\<close>. Then \<open>add_node(target, n)\<close> returns, the parent
  of \<open>n\<close> is \<open>target\<close>, \<open>n\<close> carries the former value of the counter (another
  identifier than before, when the identifiers of the members were in order), and the
  list of members holds \<open>n\<close> at least twice.
\<close>

theorem add_node_member_again:
  assumes "t \<in> set (nodes T)" and "n \<in> set (nodes T)"
    and "on_path_reverse h n t = Some False"
  shows "\<exists>h'. add_node (Some t) (Some n) (h, T) =
            Some (Returns (h', T\<lparr>nodes := nodes T @ [n], id_iterator := id_iterator T + 1\<rparr>)) \<and>
          parent (h' n) = Some t \<and> node_id (h' n) = Some (id_iterator T) \<and>
          (ids_ok (h, T) \<longrightarrow> node_id (h' n) \<noteq> node_id (h n)) \<and>
          2 \<le> count_list (nodes T @ [n]) n"
proof -
  from add_node_Returns[OF assms(1,3)] obtain h' where
    r: "add_node (Some t) (Some n) (h, T) =
          Some (Returns (h', T\<lparr>nodes := nodes T @ [n], id_iterator := id_iterator T + 1\<rparr>))" and
    p: "parent (h' n) = Some t" and i: "node_id (h' n) = Some (id_iterator T)" by blast
  have "ids_ok (h, T) \<longrightarrow> node_id (h' n) \<noteq> node_id (h n)"
    using assms(2) i by (auto simp add: ids_ok.simps)
  moreover have "count_list (nodes T) n \<noteq> 0"
    using assms(2) by (simp add: count_list_0_iff)
  then have "2 \<le> count_list (nodes T @ [n]) n" by simp
  ultimately show ?thesis using r p i by blast
qed

text \<open>
  \<open>Node(op2)\<close>, a child of the root with identifier 2, goes under \<open>Node(op1)\<close>.
\<close>

theorem add_node_member_again_witness:
  "1 \<in> set (nodes (snd two_children)) \<and> 2 \<in> set (nodes (snd two_children)) \<and>
   on_path_reverse (fst two_children) 2 1 = Some False \<and> ids_ok two_children \<and>
   (\<exists>h'. add_node (Some 1) (Some 2) two_children =
            Some (Returns (h', (snd two_children)\<lparr>nodes := [0, 1, 2, 2], id_iterator := 4\<rparr>)) \<and>
          parent (h' 2) = Some 1 \<and> node_id (h' 2) = Some 3 \<and>
          node_id (h' 2) \<noteq> node_id (fst two_children 2))"
proof -
  have m: "1 \<in> set (nodes (snd two_children))" "2 \<in> set (nodes (snd two_children))"
    by (simp_all add: two_children_def)
  have nl: "on_path_reverse (fst two_children) 2 1 = Some False"
    by (simp add: two_children_def evals)
  have v: "nodes (snd two_children) = [0, 1, 2]" "id_iterator (snd two_children) = 3"
    by (simp_all add: two_children_def)
  from add_node_member_again[OF m nl] ids_ok_two_children m nl v
  show ?thesis by simp
qed

text \<open>
  C10 as first stated fails when \<open>n\<close> is the target itself: \<open>add_node(root, root)\<close> has
  two members as arguments and raises \<open>LoopError\<close>, leaving the tree as it was.
\<close>

theorem add_node_root_under_itself_raises:
  "view [0] (add_node (Some 0) (Some 0) test_tree) =
     Some (Some LoopError, [(0, None, [], Some 0)],
           \<lparr>tree_name = ''test'', root = 0, id_iterator = 1, nodes = [0]\<rparr>)"
  by (simp add: evals)

end
